theory Spec2Isabelle
  imports Complex_Main
begin

section \<open>WiMAX interactive simulator: the computations of app.py\<close>

text \<open>
  The script is evaluated top to bottom on every refresh. Each section of the script is
  embedded as a function of the control values it reads. Python floats are modelled as
  reals, with the underflow of \<open>np.exp\<close> and, in the scheduler, the binary64 rounding
  that decide a result; Python ints as \<open>int\<close>, strings as \<open>string\<close>, dictionaries
  in their insertion order as association lists.
\<close>

datatype py_error = KeyError | ZeroDivisionError | IndexError | ValueError

subsection \<open>Library functions the script calls\<close>

text \<open>
  True division of Python floats: a zero divisor raises \<open>ZeroDivisionError\<close>.
\<close>

definition py_truediv :: "real \<Rightarrow> real \<Rightarrow> py_error + real" where
  "py_truediv a b = (if b = 0 then Inl ZeroDivisionError else Inr (a / b))"

text \<open>
  \<open>np.exp\<close> on binary64. The least positive binary64 value is \<open>2 powr (-1074)\<close>; a result
  that is at most half of it is returned as \<open>0.0\<close> (underflow). Every other rounding of
  floating-point arithmetic is left out of the model.
\<close>

definition f64_underflow :: real where
  "f64_underflow = 2 powr (- 1075)"

definition np_exp :: "real \<Rightarrow> real" where
  "np_exp x = (if exp x \<le> f64_underflow then 0 else exp x)"

text \<open>
  Binary64 rounding, to the nearest value with a 53-bit significand and to the even one of
  two equally near values. The scheduler compares random samples with sums of the literals
  \<open>0.3\<close> and \<open>0.2\<close>, so there the rounding decides which class a sample gets, and
  the literals, the additions and the division of \<open>np.random.choice\<close> are rounded.
  Overflow to infinity is left out; no value here exceeds 2.
\<close>

definition round_half_even :: "real \<Rightarrow> int" where
  "round_half_even x =
     (let f = \<lfloor>x\<rfloor> in
      if x - of_int f < 1 / 2 then f
      else if 1 / 2 < x - of_int f then f + 1
      else if even f then f else f + 1)"

definition f64_round :: "real \<Rightarrow> real" where
  "f64_round x =
     (if x = 0 then 0
      else
        (let e = max \<lfloor>log 2 \<bar>x\<bar>\<rfloor> (- 1022);
             ulp = 2 powr (of_int e - 52)
         in of_int (round_half_even (x / ulp)) * ulp))"

definition f64_add :: "real \<Rightarrow> real \<Rightarrow> real" where
  "f64_add a b = f64_round (a + b)"

definition f64_div :: "real \<Rightarrow> real \<Rightarrow> real" where
  "f64_div a b = f64_round (a / b)"

text \<open>
  The random source is the sequence of unit samples it will hand out next, each one meant to
  lie in \<open>[0, 1)\<close>. \<open>np.random.uniform(low, high)\<close> draws one unit sample \<open>u\<close> and returns
  \<open>low + (high - low) * u\<close>.
\<close>

type_synonym rng = "nat \<Rightarrow> real"

text \<open>The random source whose every unit sample is \<open>u\<close>.\<close>

definition const_rng :: "real \<Rightarrow> rng" where
  "const_rng u = (\<lambda>k. u)"

definition unit_samples :: "rng \<Rightarrow> bool" where
  "unit_samples g = (\<forall>k. 0 \<le> g k \<and> g k < 1)"

text \<open>
  The unit samples the generator can hand out are the multiples of \<open>2 powr (-53)\<close> in
  \<open>[0, 1)\<close>, each of them equally likely and every draw independent of the others. So the
  outcomes of \<open>n\<close> draws are the lists of \<open>n\<close> such samples, all equally likely, and the
  probability of an event is the number of its lists divided by the number of all lists.
  \<open>rng_of us\<close> is a random source that hands out the samples \<open>us\<close> first.
\<close>

definition grid_sample :: "nat \<Rightarrow> real" where
  "grid_sample k = real k / 2 ^ 53"

definition sample_grid :: "real set" where
  "sample_grid = grid_sample ` {..<2 ^ 53}"

definition sample_lists :: "nat \<Rightarrow> real list set" where
  "sample_lists n = {us. length us = n \<and> set us \<subseteq> sample_grid}"

definition rng_of :: "real list \<Rightarrow> rng" where
  "rng_of us = (\<lambda>k. if k < length us then us ! k else 0)"

definition random_sample :: "rng \<Rightarrow> real \<times> rng" where
  "random_sample g = (g 0, \<lambda>k. g (Suc k))"

fun random_samples :: "nat \<Rightarrow> rng \<Rightarrow> real list \<times> rng" where
  "random_samples 0 g = ([], g)"
| "random_samples (Suc n) g =
     (case random_sample g of (u, g') \<Rightarrow>
        (case random_samples n g' of (us, g'') \<Rightarrow> (u # us, g'')))"

definition np_uniform :: "real \<Rightarrow> real \<Rightarrow> rng \<Rightarrow> real \<times> rng" where
  "np_uniform low high g =
     (case random_sample g of (u, g') \<Rightarrow> (low + (high - low) * u, g'))"

text \<open>
  \<open>np.random.choice(a, size, p=p)\<close> first checks its arguments and raises
  \<open>ValueError\<close> when \<open>a\<close> is empty although samples are asked for, when \<open>p\<close> and
  \<open>a\<close> differ in length, when an entry of \<open>p\<close> is negative, or when the sum of
  \<open>p\<close> is further from 1 than \<open>2 powr (-26)\<close>, the square root of the binary64
  machine epsilon. Then it builds the cumulative distribution of \<open>p\<close> by binary64
  additions from left to right, normalises it by a binary64 division by its last entry, draws \<open>size\<close> unit samples, and picks for each sample \<open>u\<close> the
  entry of \<open>a\<close> at \<open>searchsorted(cdf, u, side='right')\<close>, the number of leading
  entries of \<open>cdf\<close> that are at most \<open>u\<close>.
\<close>

fun cumsum_from :: "real \<Rightarrow> real list \<Rightarrow> real list" where
  "cumsum_from s [] = []"
| "cumsum_from s (x # xs) = f64_add s x # cumsum_from (f64_add s x) xs"

definition np_cumsum :: "real list \<Rightarrow> real list" where
  "np_cumsum p = cumsum_from 0 p"

definition searchsorted_right :: "real list \<Rightarrow> real \<Rightarrow> nat" where
  "searchsorted_right cdf u = length (takeWhile (\<lambda>x. x \<le> u) cdf)"

fun fancy_index :: "'a list \<Rightarrow> nat list \<Rightarrow> py_error + 'a list" where
  "fancy_index a [] = Inr []"
| "fancy_index a (i # idx) =
     (if i < length a then
        (case fancy_index a idx of Inl e \<Rightarrow> Inl e | Inr xs \<Rightarrow> Inr (a ! i # xs))
      else Inl IndexError)"

definition choice_cdf :: "real list \<Rightarrow> real list" where
  "choice_cdf p = (let cdf = np_cumsum p in map (\<lambda>x. f64_div x (last cdf)) cdf)"

definition np_choice :: "'a list \<Rightarrow> nat \<Rightarrow> real list \<Rightarrow> rng \<Rightarrow> (py_error + 'a list) \<times> rng" where
  "np_choice a size_n p g =
     (if a = [] \<and> size_n \<noteq> 0 then (Inl ValueError, g)
      else if length p \<noteq> length a then (Inl ValueError, g)
      else if list_ex (\<lambda>x. x < 0) p then (Inl ValueError, g)
      else if 1 / 2 ^ 26 < \<bar>sum_list p - 1\<bar> then (Inl ValueError, g)
      else
        (case random_samples size_n g of (us, g') \<Rightarrow>
           (fancy_index a (map (searchsorted_right (choice_cdf p)) us), g')))"

subsection \<open>Section 1: coverage area calculator\<close>

definition c :: real where
  "c = 3 * 10 ^ 8"

definition rx_thresh :: int where
  "rx_thresh = - 90"

text \<open>
  \<open>freq\<close> and \<open>path_loss_exp\<close> come from float sliders, \<open>tx_power\<close> from an integer
  slider. Both divisions raise on a zero divisor.
\<close>

definition wavelength :: "real \<Rightarrow> py_error + real" where
  "wavelength freq = py_truediv c (freq * 10 ^ 9)"

definition max_distance :: "real \<Rightarrow> int \<Rightarrow> real \<Rightarrow> py_error + real" where
  "max_distance freq tx_power path_loss_exp =
     (case wavelength freq of
        Inl e \<Rightarrow> Inl e
      | Inr wl \<Rightarrow>
          (case py_truediv (real_of_int (tx_power - rx_thresh)) (10 * path_loss_exp) of
             Inl e \<Rightarrow> Inl e
           | Inr ex \<Rightarrow> Inr ((wl / (4 * pi)) * 10 powr ex)))"

subsection \<open>Section 2: spectral efficiency and data rate\<close>

text \<open>The dictionary literal of the source; a key that is not in it raises \<open>KeyError\<close>.\<close>

definition bits_per_sym_table :: "(string \<times> int) list" where
  "bits_per_sym_table =
     [(''QPSK (2 bits/sym)'', 2), (''16-QAM (4 bits/sym)'', 4), (''64-QAM (6 bits/sym)'', 6)]"

definition bits_per_sym :: "string \<Rightarrow> py_error + int" where
  "bits_per_sym mod_scheme =
     (case map_of bits_per_sym_table mod_scheme of None \<Rightarrow> Inl KeyError | Some b \<Rightarrow> Inr b)"

definition data_rate :: "real \<Rightarrow> string \<Rightarrow> py_error + real" where
  "data_rate bw mod_scheme =
     (case bits_per_sym mod_scheme of
        Inl e \<Rightarrow> Inl e
      | Inr b \<Rightarrow> Inr (bw * 10 ^ 6 * real_of_int b / 7))"

subsection \<open>Section 3: QoS class analyzer\<close>

text \<open>The options of the select box, in the order of the source.\<close>

definition qos_options :: "string list" where
  "qos_options = [''UGS'', ''rtPS'', ''nrtPS'', ''BE'']"

text \<open>The check mark that starts every description is U+2705, three bytes in UTF-8.\<close>

definition check_mark :: string where
  "check_mark = [CHR 0xE2, CHR 0x9C, CHR 0x85]"

text \<open>
  The \<open>if\<close>/\<open>elif\<close>/\<open>else\<close> chain on \<open>qos_class\<close>: the text handed to
  \<open>st.write\<close> and the dictionary \<open>metrics\<close> handed to \<open>st.json\<close>.
\<close>

definition qos_analyzer :: "string \<Rightarrow> string \<times> (string \<times> string) list" where
  "qos_analyzer qos_class =
     (if qos_class = ''UGS'' then
        (check_mark @ '' Unsolicited Grant Service: Low delay, constant bit rate (e.g. VoIP)'',
         [(''Delay'', ''Very Low''), (''Jitter'', ''Low''), (''Throughput'', ''High''),
          (''BER'', ''Low''), (''PLR'', ''Very Low'')])
      else if qos_class = ''rtPS'' then
        (check_mark @ '' Real-Time Polling Service: Variable rate, real-time (e.g. video)'',
         [(''Delay'', ''Low''), (''Jitter'', ''Medium''), (''Throughput'', ''Medium-High''),
          (''BER'', ''Medium''), (''PLR'', ''Low'')])
      else if qos_class = ''nrtPS'' then
        (check_mark @ '' Non-Real-Time Polling Service: Bursty traffic (e.g. FTP)'',
         [(''Delay'', ''High''), (''Jitter'', ''Medium''), (''Throughput'', ''Medium''),
          (''BER'', ''Medium''), (''PLR'', ''Medium'')])
      else
        (check_mark @ '' Best Effort: No guarantee (e.g. web browsing)'',
         [(''Delay'', ''Variable''), (''Jitter'', ''Variable''), (''Throughput'', ''Low-Medium''),
          (''BER'', ''High''), (''PLR'', ''High'')]))"

definition rating_keys :: "string list" where
  "rating_keys = [''Delay'', ''Jitter'', ''Throughput'', ''BER'', ''PLR'']"

subsection \<open>Section 4: OFDM subcarrier allocation\<close>

definition N :: int where
  "N = 64"

text \<open>\<open>np.arange(lo, hi)\<close>: the integers from \<open>lo\<close> up to \<open>hi - 1\<close>.\<close>

definition np_arange :: "int \<Rightarrow> int \<Rightarrow> int list" where
  "np_arange lo hi = [lo..hi - 1]"

text \<open>\<open>np.zeros(n)\<close>: a negative length raises \<open>ValueError\<close>.\<close>

definition np_zeros :: "int \<Rightarrow> py_error + real list" where
  "np_zeros n = (if n < 0 then Inl ValueError else Inr (replicate (nat n) 0))"

text \<open>
  The slice assignment \<open>a[::step] = v\<close> writes \<open>v\<close> at the indices
  \<open>0, step, 2 * step, ...\<close> below the length; \<open>assign_from i\<close> is the loop over these
  indices starting at \<open>i\<close>. A step of zero raises \<open>ValueError\<close>.
\<close>

function assign_from :: "nat \<Rightarrow> nat \<Rightarrow> real \<Rightarrow> real list \<Rightarrow> real list" where
  "assign_from i step v a =
     (if step = 0 \<or> length a \<le> i then a
      else assign_from (i + step) step v (a[i := v]))"
  by pat_completeness auto
termination
  by (relation "measure (\<lambda>(i, step, v, a). length a - i)") auto

declare assign_from.simps [simp del]

definition assign_stride :: "nat \<Rightarrow> real \<Rightarrow> real list \<Rightarrow> py_error + real list" where
  "assign_stride step v a = (if step = 0 then Inl ValueError else Inr (assign_from 0 step v a))"

text \<open>
  The array \<open>power\<close> of the source; \<open>subcarriers\<close> holds the index labels the plot
  puts under it.
\<close>

definition subcarriers :: "int list" where
  "subcarriers = np_arange (- N div 2) (N div 2)"

definition power_array :: "py_error + real list" where
  "power_array = (case np_zeros N of Inl e \<Rightarrow> Inl e | Inr z \<Rightarrow> assign_stride 4 1 z)"

subsection \<open>Section 5: scheduling demo\<close>

definition traffic_classes :: "string list" where
  "traffic_classes = [''UGS'', ''rtPS'', ''nrtPS'', ''BE'']"

definition slots :: nat where
  "slots = 20"

text \<open>The list \<open>p\<close> of the call: the binary64 values of the literals.\<close>

definition schedule_p :: "real list" where
  "schedule_p = [f64_round (3 / 10), f64_round (3 / 10), f64_round (2 / 10), f64_round (2 / 10)]"

definition schedule :: "rng \<Rightarrow> (py_error + string list) \<times> rng" where
  "schedule g = np_choice traffic_classes slots schedule_p g"

text \<open>The class a slot gets from its unit sample \<open>u\<close>, and how many samples give class \<open>cl\<close>.\<close>

definition slot_class :: "real \<Rightarrow> py_error + string" where
  "slot_class u =
     (let i = searchsorted_right (choice_cdf schedule_p) u
      in if i < length traffic_classes then Inr (traffic_classes ! i) else Inl IndexError)"

definition class_count :: "string \<Rightarrow> nat" where
  "class_count cl = card {u \<in> sample_grid. slot_class u = Inr cl}"


subsection \<open>Section 6: QoS metrics\<close>

text \<open>
  \<open>snr_db\<close> is the value of an integer slider; the animation calls the same formulas on a
  float, so they take a real.
\<close>

definition snr_lin :: "real \<Rightarrow> real" where
  "snr_lin snr_db = 10 powr (snr_db / 10)"

definition ber :: "real \<Rightarrow> real" where
  "ber snr_db = 0.5 * np_exp (- snr_lin snr_db)"

text \<open>The throughput from the data rate \<open>dr\<close> and a bit error rate \<open>b\<close>.\<close>

definition throughput :: "real \<Rightarrow> real \<Rightarrow> real" where
  "throughput dr b = dr * (1 - b)"

definition delay :: "int \<Rightarrow> rng \<Rightarrow> (py_error + real) \<times> rng" where
  "delay snr_db g =
     (case np_uniform 10 50 g of (x, g') \<Rightarrow> (py_truediv x (real_of_int (snr_db + 1)), g'))"

definition jitter :: "int \<Rightarrow> rng \<Rightarrow> (py_error + real) \<times> rng" where
  "jitter snr_db g =
     (case np_uniform 1 10 g of (x, g') \<Rightarrow> (py_truediv x (real_of_int (snr_db + 1)), g'))"

definition plr :: "real \<Rightarrow> real" where
  "plr snr_db = ber snr_db * 100"

record link_metrics =
  m_ber :: real
  m_throughput :: real
  m_delay :: real
  m_jitter :: real
  m_plr :: real

text \<open>The five metrics in the order the script computes them; \<open>dr\<close> is the data rate.\<close>

definition qos_metrics :: "real \<Rightarrow> int \<Rightarrow> rng \<Rightarrow> (py_error + link_metrics) \<times> rng" where
  "qos_metrics dr snr_db g =
     (case delay snr_db g of
        (Inl e, g1) \<Rightarrow> (Inl e, g1)
      | (Inr d, g1) \<Rightarrow>
          (case jitter snr_db g1 of
             (Inl e, g2) \<Rightarrow> (Inl e, g2)
           | (Inr j, g2) \<Rightarrow>
               (Inr \<lparr>m_ber = ber (real_of_int snr_db),
                     m_throughput = throughput dr (ber (real_of_int snr_db)),
                     m_delay = d, m_jitter = j,
                     m_plr = plr (real_of_int snr_db)\<rparr>, g2)))"

subsection \<open>Section 7: real-time network monitoring\<close>

record monitor =
  x_vals :: "nat list"
  ber_vals :: "real list"
  thr_vals :: "real list"

text \<open>One pass through the body of the \<open>for\<close> loop, at time step \<open>t\<close>.\<close>

definition monitor_step :: "real \<Rightarrow> int \<Rightarrow> nat \<Rightarrow> monitor \<times> rng \<Rightarrow> monitor \<times> rng" where
  "monitor_step dr snr_db t s =
     (case s of (m, g) \<Rightarrow>
        (case np_uniform (- 2) 2 g of (off, g') \<Rightarrow>
           (let snr_dynamic = real_of_int snr_db + off;
                snr_lin_dynamic = 10 powr (snr_dynamic / 10);
                ber_dynamic = 0.5 * np_exp (- snr_lin_dynamic);
                thr_dynamic = dr * (1 - ber_dynamic)
            in (\<lparr>x_vals = x_vals m @ [t],
                  ber_vals = ber_vals m @ [ber_dynamic],
                  thr_vals = thr_vals m @ [thr_dynamic / 10 ^ 6]\<rparr>, g'))))"

definition monitor_loop :: "real \<Rightarrow> int \<Rightarrow> nat \<Rightarrow> rng \<Rightarrow> monitor \<times> rng" where
  "monitor_loop dr snr_db n g =
     fold (monitor_step dr snr_db) [0..<n] (\<lparr>x_vals = [], ber_vals = [], thr_vals = []\<rparr>, g)"

text \<open>Nothing is appended unless the button was pressed.\<close>

definition live_simulation :: "bool \<Rightarrow> real \<Rightarrow> int \<Rightarrow> rng \<Rightarrow> (monitor \<times> rng) option" where
  "live_simulation run_button dr snr_db g =
     (if run_button then Some (monitor_loop dr snr_db 30 g) else None)"

section \<open>Properties\<close>

subsection \<open>The coverage radius\<close>

lemma wavelength_pos:
  assumes "0 < freq"
  shows "wavelength freq = Inr (c / (freq * 10 ^ 9))" and "0 < c / (freq * 10 ^ 9)"
  using assms by (simp_all add: wavelength_def py_truediv_def c_def)

lemma max_distance_value:
  assumes "0 < freq" and "0 < n"
  shows "max_distance freq p n =
    Inr ((c / (freq * 10 ^ 9) / (4 * pi)) * 10 powr (real_of_int (p + 90) / (10 * n)))"
  using assms by (simp add: max_distance_def wavelength_def py_truediv_def rx_thresh_def)

text \<open>
  C2. For a frequency in [2.3, 3.5], a transmit power in [10, 40] and a path-loss exponent in
  [2, 5] both divisions succeed and the coverage radius is
  \<open>(wavelength / (4 * pi)) * 10 powr ((tx_power + 90) / (10 * n))\<close>, a positive number.
  Raising the transmit power within its range gives a larger radius, raising the path-loss
  exponent within its range gives a smaller one.
\<close>

theorem coverage_radius:
  assumes f: "2.3 \<le> freq" "freq \<le> 3.5" and n: "2 \<le> n" "n \<le> 5" and p: "10 \<le> p" "p \<le> 40"
  shows "\<exists>r. max_distance freq p n = Inr r \<and> 0 < r \<and>
     r = (c / (freq * 10 ^ 9) / (4 * pi)) * 10 powr (real_of_int (p - (- 90)) / (10 * n)) \<and>
     (\<forall>p'. p < p' \<and> p' \<le> 40 \<longrightarrow> (\<exists>r'. max_distance freq p' n = Inr r' \<and> r < r')) \<and>
     (\<forall>n'. n < n' \<and> n' \<le> 5 \<longrightarrow> (\<exists>r'. max_distance freq p n' = Inr r' \<and> r' < r))"
proof -
  have fpos: "0 < freq" and npos: "0 < n" using f n by simp_all
  define k where "k = c / (freq * 10 ^ 9) / (4 * pi)"
  have kpos: "0 < k" using fpos by (simp add: k_def c_def)
  define r where "r = k * 10 powr (real_of_int (p + 90) / (10 * n))"
  have val: "max_distance freq q m = Inr (k * 10 powr (real_of_int (q + 90) / (10 * m)))"
    if "0 < m" for q m
    using max_distance_value [OF fpos that] by (simp add: k_def)
  have r: "max_distance freq p n = Inr r" using val [OF npos] by (simp add: r_def)
  have rpos: "0 < r" using kpos by (simp add: r_def)
  have up: "\<exists>r'. max_distance freq p' n = Inr r' \<and> r < r'" if "p < p'" for p'
  proof -
    have "real_of_int (p + 90) / (10 * n) < real_of_int (p' + 90) / (10 * n)"
      using that npos by (simp add: divide_strict_right_mono)
    then have "10 powr (real_of_int (p + 90) / (10 * n)) < 10 powr (real_of_int (p' + 90) / (10 * n))"
      by (simp add: powr_less_mono)
    then have "r < k * 10 powr (real_of_int (p' + 90) / (10 * n))"
      using kpos by (simp add: r_def)
    with val [OF npos, of p'] show ?thesis by blast
  qed
  have down: "\<exists>r'. max_distance freq p n' = Inr r' \<and> r' < r" if "n < n'" for n'
  proof -
    have n'pos: "0 < n'" using that npos by simp
    have "0 < real_of_int (p + 90)" using p by simp
    then have "real_of_int (p + 90) / (10 * n') < real_of_int (p + 90) / (10 * n)"
      using that npos n'pos by (simp add: divide_strict_left_mono)
    then have "10 powr (real_of_int (p + 90) / (10 * n')) < 10 powr (real_of_int (p + 90) / (10 * n))"
      by (simp add: powr_less_mono)
    then have "k * 10 powr (real_of_int (p + 90) / (10 * n')) < r"
      using kpos by (simp add: r_def)
    with val [OF n'pos, of p] show ?thesis by blast
  qed
  have form: "r = (c / (freq * 10 ^ 9) / (4 * pi)) * 10 powr (real_of_int (p - (- 90)) / (10 * n))"
    by (simp add: r_def k_def)
  from r rpos form up down show ?thesis by blast
qed

theorem coverage_radius_witness:
  "\<exists>r r' r''. max_distance 2.5 20 3.5 = Inr r \<and> 0 < r \<and>
      max_distance 2.5 30 3.5 = Inr r' \<and> r < r' \<and>
      max_distance 2.5 20 4 = Inr r'' \<and> r'' < r"
proof -
  have h: "(2.3::real) \<le> 2.5" "(2.5::real) \<le> 3.5" "(2::real) \<le> 3.5" "(3.5::real) \<le> 5"
      "(10::int) \<le> 20" "(20::int) \<le> 40"
    by simp_all
  from coverage_radius [OF h] obtain r where
    r: "max_distance 2.5 20 3.5 = Inr r" "0 < r"
      "\<forall>p'. 20 < p' \<and> p' \<le> 40 \<longrightarrow> (\<exists>r'. max_distance 2.5 p' 3.5 = Inr r' \<and> r < r')"
      "\<forall>n'. 3.5 < n' \<and> n' \<le> 5 \<longrightarrow> (\<exists>r'. max_distance 2.5 20 n' = Inr r' \<and> r' < r)"
    by blast
  from r(3) have "\<exists>r'. max_distance 2.5 30 3.5 = Inr r' \<and> r < r'"
    by (rule allE [where x = 30]) simp
  then obtain r' where r': "max_distance 2.5 30 3.5 = Inr r'" "r < r'" by blast
  from r(4) have "\<exists>r'. max_distance 2.5 20 4 = Inr r' \<and> r' < r"
    by (rule allE [where x = 4]) simp
  then obtain r'' where "max_distance 2.5 20 4 = Inr r''" "r'' < r" by blast
  with r(1,2) r' show ?thesis by blast
qed

subsection \<open>The data rate\<close>

lemma bits_per_sym_cases:
  "bits_per_sym m = Inr b \<longleftrightarrow>
     (m = ''QPSK (2 bits/sym)'' \<and> b = 2) \<or> (m = ''16-QAM (4 bits/sym)'' \<and> b = 4) \<or>
     (m = ''64-QAM (6 bits/sym)'' \<and> b = 6)"
  by (auto simp: bits_per_sym_def bits_per_sym_table_def split: option.splits if_splits)

lemma data_rate_Inr:
  "data_rate bw m = Inr r \<longleftrightarrow> (\<exists>b. bits_per_sym m = Inr b \<and> r = bw * 10 ^ 6 * real_of_int b / 7)"
  by (auto simp: data_rate_def split: sum.splits)

text \<open>
  C3. The modulation dictionary holds exactly QPSK with 2, 16-QAM with 4 and 64-QAM with 6
  bits per symbol, and the data rate is the bandwidth in Hz (the slider value in MHz times
  \<open>10 ^ 6\<close>) times the bits per symbol, divided by 7. A larger bandwidth gives a larger
  data rate, and so does, at a positive bandwidth, a modulation with more bits per symbol.
  At 10 MHz and 16-QAM the data rate is \<open>10 * 10 ^ 6 * 4 / 7\<close>, between 5.714 and
  5.715 Mbps.
\<close>

theorem data_rate_formula:
  "data_rate bw ''QPSK (2 bits/sym)'' = Inr (bw * 10 ^ 6 * 2 / 7) \<and>
   data_rate bw ''16-QAM (4 bits/sym)'' = Inr (bw * 10 ^ 6 * 4 / 7) \<and>
   data_rate bw ''64-QAM (6 bits/sym)'' = Inr (bw * 10 ^ 6 * 6 / 7) \<and>
   (\<forall>m b. bits_per_sym m = Inr b \<longrightarrow>
      b \<in> {2, 4, 6} \<and> data_rate bw m = Inr (bw * 10 ^ 6 * real_of_int b / 7)) \<and>
   (\<forall>m bw' r r'. data_rate bw m = Inr r \<and> data_rate bw' m = Inr r' \<and> bw < bw' \<longrightarrow> r < r') \<and>
   (\<forall>m m' b b' r r'. 0 < bw \<and> bits_per_sym m = Inr b \<and> bits_per_sym m' = Inr b' \<and> b < b' \<and>
      data_rate bw m = Inr r \<and> data_rate bw m' = Inr r' \<longrightarrow> r < r') \<and>
   data_rate 10 ''16-QAM (4 bits/sym)'' = Inr (10 * 10 ^ 6 * 4 / 7) \<and>
   5714000 < (10 * 10 ^ 6 * 4 / 7 :: real) \<and> (10 * 10 ^ 6 * 4 / 7 :: real) < 5715000"
proof -
  have v: "data_rate bw ''QPSK (2 bits/sym)'' = Inr (bw * 10 ^ 6 * 2 / 7)"
      "data_rate bw ''16-QAM (4 bits/sym)'' = Inr (bw * 10 ^ 6 * 4 / 7)"
      "data_rate bw ''64-QAM (6 bits/sym)'' = Inr (bw * 10 ^ 6 * 6 / 7)" for bw
    by (simp_all add: data_rate_Inr bits_per_sym_cases)
  have gen: "\<forall>m b. bits_per_sym m = Inr b \<longrightarrow>
      b \<in> {2, 4, 6} \<and> data_rate bw m = Inr (bw * 10 ^ 6 * real_of_int b / 7)"
    by (auto simp: data_rate_Inr bits_per_sym_cases)
  have mono_bw: "\<forall>m bw' r r'. data_rate bw m = Inr r \<and> data_rate bw' m = Inr r' \<and> bw < bw' \<longrightarrow> r < r'"
    by (auto simp: data_rate_Inr bits_per_sym_cases)
  have mono_bits: "\<forall>m m' b b' r r'. 0 < bw \<and> bits_per_sym m = Inr b \<and> bits_per_sym m' = Inr b' \<and> b < b' \<and>
      data_rate bw m = Inr r \<and> data_rate bw m' = Inr r' \<longrightarrow> r < r'"
    by (auto simp: data_rate_Inr bits_per_sym_cases)
  have ex: "5714000 < (10 * 10 ^ 6 * 4 / 7 :: real)" "(10 * 10 ^ 6 * 4 / 7 :: real) < 5715000"
    by simp_all
  from v [of bw] v(2) [of 10] gen mono_bw mono_bits ex show ?thesis by blast
qed

theorem data_rate_formula_witness:
  "bits_per_sym ''QPSK (2 bits/sym)'' = Inr 2 \<and> bits_per_sym ''64-QAM (6 bits/sym)'' = Inr 6 \<and>
   data_rate 5 ''QPSK (2 bits/sym)'' = Inr (10000000 / 7) \<and>
   data_rate 10 ''QPSK (2 bits/sym)'' = Inr (20000000 / 7) \<and>
   data_rate 10 ''64-QAM (6 bits/sym)'' = Inr (60000000 / 7) \<and>
   (10000000 / 7 :: real) < 20000000 / 7 \<and> (20000000 / 7 :: real) < 60000000 / 7"
proof -
  have b: "bits_per_sym ''QPSK (2 bits/sym)'' = Inr 2" "bits_per_sym ''64-QAM (6 bits/sym)'' = Inr 6"
    by (simp_all add: bits_per_sym_def bits_per_sym_table_def)
  have a: "data_rate 5 ''QPSK (2 bits/sym)'' = Inr (10000000 / 7)"
    using data_rate_formula [of 5] by simp
  have t: "data_rate 10 ''QPSK (2 bits/sym)'' = Inr (20000000 / 7)"
     "data_rate 10 ''64-QAM (6 bits/sym)'' = Inr (60000000 / 7)"
    using data_rate_formula [of 10] by simp_all
  have "\<forall>m bw' r r'. data_rate 5 m = Inr r \<and> data_rate bw' m = Inr r' \<and> 5 < bw' \<longrightarrow> r < r'"
    using data_rate_formula [of 5] by blast
  with a t(1) have l1: "(10000000 / 7 :: real) < 20000000 / 7" by fastforce
  have "\<forall>m m' b b' r r'. 0 < (10::real) \<and> bits_per_sym m = Inr b \<and> bits_per_sym m' = Inr b' \<and> b < b' \<and>
      data_rate 10 m = Inr r \<and> data_rate 10 m' = Inr r' \<longrightarrow> r < r'"
    using data_rate_formula [of 10] by blast
  with b t have l2: "(20000000 / 7 :: real) < 60000000 / 7" by fastforce
  from b a t l1 l2 show ?thesis by blast
qed

subsection \<open>The QoS class analyzer\<close>

lemma qos_analyzer_keys: "map fst (snd (qos_analyzer q)) = rating_keys"
  by (simp add: qos_analyzer_def rating_keys_def)

lemma qos_analyzer_descr: "fst (qos_analyzer q) \<noteq> []"
  by (simp add: qos_analyzer_def check_mark_def)

lemma qos_analyzer_else:
  "q \<noteq> ''UGS'' \<Longrightarrow> q \<noteq> ''rtPS'' \<Longrightarrow> q \<noteq> ''nrtPS'' \<Longrightarrow>
   qos_analyzer q =
     (check_mark @ '' Best Effort: No guarantee (e.g. web browsing)'',
      [(''Delay'', ''Variable''), (''Jitter'', ''Variable''), (''Throughput'', ''Low-Medium''),
       (''BER'', ''High''), (''PLR'', ''High'')])"
  by (simp add: qos_analyzer_def)

text \<open>
  C6. The select box offers exactly the four classes UGS, rtPS, nrtPS and BE, each once. The
  lookup returns, for each of them, a description that is not empty and a ratings dictionary
  whose keys are Delay, Jitter, Throughput, BER and PLR, five different keys; the four
  classes get four different results.
\<close>

theorem qos_lookup_four_classes:
  "set qos_options = {''UGS'', ''rtPS'', ''nrtPS'', ''BE''} \<and>
   distinct qos_options \<and> length qos_options = 4 \<and>
   list_all (\<lambda>q. fst (qos_analyzer q) \<noteq> [] \<and>
                 map fst (snd (qos_analyzer q)) =
                   [''Delay'', ''Jitter'', ''Throughput'', ''BER'', ''PLR''] \<and>
                 distinct (map fst (snd (qos_analyzer q))) \<and>
                 length (snd (qos_analyzer q)) = 5) qos_options \<and>
   distinct (map qos_analyzer qos_options)"
proof -
  have opts: "set qos_options = {''UGS'', ''rtPS'', ''nrtPS'', ''BE''} \<and>
      distinct qos_options \<and> length qos_options = 4"
    by (auto simp: qos_options_def)
  have keys: "map fst (snd (qos_analyzer q)) = [''Delay'', ''Jitter'', ''Throughput'', ''BER'', ''PLR'']"
    for q
    using qos_analyzer_keys [of q] by (simp add: rating_keys_def)
  have len: "length (snd (qos_analyzer q)) = 5" for q
    using arg_cong [OF keys [of q], of length] by simp
  have each: "list_all (\<lambda>q. fst (qos_analyzer q) \<noteq> [] \<and>
                 map fst (snd (qos_analyzer q)) =
                   [''Delay'', ''Jitter'', ''Throughput'', ''BER'', ''PLR''] \<and>
                 distinct (map fst (snd (qos_analyzer q))) \<and>
                 length (snd (qos_analyzer q)) = 5) qos_options"
    by (simp add: list_all_iff qos_analyzer_descr keys len)
  have diff: "distinct (map qos_analyzer qos_options)"
    by (simp add: qos_options_def qos_analyzer_def)
  from opts each diff show ?thesis by blast
qed

text \<open>
  C10. The last branch of the lookup is an \<open>else\<close>: every class identifier other than UGS,
  rtPS and nrtPS, whatever string it is, gets the result of BE, the Best Effort description
  with its five ratings.
\<close>

theorem qos_catch_all:
  assumes "q \<noteq> ''UGS''" and "q \<noteq> ''rtPS''" and "q \<noteq> ''nrtPS''"
  shows "qos_analyzer q = qos_analyzer ''BE'' \<and>
         fst (qos_analyzer q) = check_mark @ '' Best Effort: No guarantee (e.g. web browsing)'' \<and>
         snd (qos_analyzer q) =
           [(''Delay'', ''Variable''), (''Jitter'', ''Variable''),
            (''Throughput'', ''Low-Medium''), (''BER'', ''High''), (''PLR'', ''High'')] \<and>
         map fst (snd (qos_analyzer q)) = rating_keys \<and> length rating_keys = 5"
proof -
  have "qos_analyzer ''BE'' = qos_analyzer q"
    using qos_analyzer_else [OF assms] qos_analyzer_else [of "''BE''"] by simp
  then show ?thesis
    using qos_analyzer_else [OF assms] by (simp add: rating_keys_def)
qed

theorem qos_catch_all_witness:
  "''Gold'' \<noteq> ''UGS'' \<and> ''Gold'' \<noteq> ''rtPS'' \<and> ''Gold'' \<noteq> ''nrtPS'' \<and>
   qos_analyzer ''Gold'' = qos_analyzer ''BE'' \<and>
   fst (qos_analyzer ''Gold'') = check_mark @ '' Best Effort: No guarantee (e.g. web browsing)''"
proof -
  have h: "''Gold'' \<noteq> ''UGS''" "''Gold'' \<noteq> ''rtPS''" "''Gold'' \<noteq> ''nrtPS''"
    by simp_all
  from qos_catch_all [OF h] h show ?thesis by blast
qed

subsection \<open>The subcarrier allocation\<close>

lemma length_assign_from: "length (assign_from i step v a) = length a"
  by (induction i step v a rule: assign_from.induct)
     (simp add: assign_from.simps [of i step v a for i step v a])

lemma stride_shift:
  fixes i k step :: nat
  assumes "0 < step" and "i < k"
  shows "(i + step \<le> k \<and> (k - (i + step)) mod step = 0) = ((k - i) mod step = 0)"
proof -
  define d where "d = k - i"
  have d: "0 < d" "k = i + d" using assms by (simp_all add: d_def)
  have "(step \<le> d \<and> (d - step) mod step = 0) = (d mod step = 0)"
  proof
    assume "step \<le> d \<and> (d - step) mod step = 0"
    then show "d mod step = 0" by (simp add: le_mod_geq)
  next
    assume z: "d mod step = 0"
    then have "step dvd d" by (simp add: dvd_eq_mod_eq_0)
    then have "step \<le> d" using d(1) by (simp add: dvd_imp_le)
    then show "step \<le> d \<and> (d - step) mod step = 0" using z by (simp add: le_mod_geq)
  qed
  then show ?thesis using d(2) by simp
qed

text \<open>The slice assignment writes exactly the positions \<open>i, i + step, i + 2 * step, ...\<close>.\<close>

lemma nth_assign_from:
  "k < length a \<Longrightarrow>
   assign_from i step v a ! k =
     (if 0 < step \<and> i \<le> k \<and> (k - i) mod step = 0 then v else a ! k)"
proof (induction i step v a rule: assign_from.induct)
  case (1 i step v a)
  show ?case
  proof (cases "step = 0 \<or> length a \<le> i")
    case True
    with "1.prems" show ?thesis by (auto simp: assign_from.simps [of i step v a])
  next
    case False
    then have st: "0 < step" and il: "i < length a" by auto
    have unfold: "assign_from i step v a = assign_from (i + step) step v (a[i := v])"
      using False by (subst assign_from.simps) simp
    have ih: "assign_from (i + step) step v (a[i := v]) ! k =
        (if 0 < step \<and> i + step \<le> k \<and> (k - (i + step)) mod step = 0 then v
         else a[i := v] ! k)"
      using "1.IH" [OF False] "1.prems" by simp
    show ?thesis
    proof (cases "k = i")
      case True
      then show ?thesis using unfold ih st il by simp
    next
      case ne: False
      show ?thesis
      proof (cases "i \<le> k")
        case True
        then have "i < k" using ne by simp
        from stride_shift [OF st this] show ?thesis using unfold ih st ne True by simp
      next
        case False
        then show ?thesis using unfold ih st by simp
      qed
    qed
  qed
qed

lemma power_array_eq: "power_array = Inr (map (\<lambda>k. if k mod 4 = 0 then 1 else 0) [0..<64])"
proof -
  have "assign_from 0 4 1 (replicate 64 0) = map (\<lambda>k. if k mod 4 = 0 then 1 else 0) [0..<64]"
  proof (rule nth_equalityI)
    show "length (assign_from 0 4 1 (replicate 64 0)) =
        length (map (\<lambda>k. if k mod 4 = 0 then 1 else 0 :: real) [0..<64])"
      by (simp add: length_assign_from)
  next
    fix i assume "i < length (assign_from 0 4 1 (replicate 64 0))"
    then have "i < 64" by (simp add: length_assign_from)
    then show "assign_from 0 4 1 (replicate 64 0) ! i =
        map (\<lambda>k. if k mod 4 = 0 then 1 else 0) [0..<64] ! i"
      by (simp add: nth_assign_from)
  qed
  then show ?thesis
    by (simp add: power_array_def np_zeros_def assign_stride_def N_def)
qed

text \<open>
  C7. The power array is built without error, has length 64 and lies under the subcarrier
  indices -32, ..., 31. Its entry at position \<open>k\<close> is 1 when \<open>k\<close> is a multiple of 4 and
  0 otherwise, so exactly 16 of the 64 entries are active (equal to 1) and the other 48
  are 0.
\<close>

theorem subcarrier_allocation:
  "\<exists>p. power_array = Inr p \<and> length p = 64 \<and>
     subcarriers = [- 32..31] \<and> length subcarriers = length p \<and>
     p = map (\<lambda>k. if k mod 4 = 0 then 1 else 0) [0..<64] \<and>
     length (filter (\<lambda>x. x = 1) p) = 16 \<and>
     length (filter (\<lambda>x. x = 0) p) = 48 \<and>
     set p = {0, 1}"
proof -
  define p :: "real list" where "p = map (\<lambda>k. if k mod 4 = 0 then 1 else 0) [0..<64]"
  have run: "power_array = Inr p"
    by (simp only: power_array_eq p_def)
  have len: "length p = 64"
    by (simp add: p_def)
  have sub: "subcarriers = [- 32..31]"
    by (simp add: subcarriers_def np_arange_def N_def)
  have sublen: "length subcarriers = length p"
    by (simp add: sub len)
  have ones: "length (filter (\<lambda>x. x = 1) p) = 16"
    unfolding p_def by (simp add: filter_map comp_def) code_simp
  have zeros: "length (filter (\<lambda>x. x = 0) p) = 48"
    unfolding p_def by (simp add: filter_map comp_def) code_simp
  have vals: "set p = {0, 1}"
    unfolding p_def by code_simp
  from run len sub sublen p_def ones zeros vals show ?thesis by blast
qed

subsection \<open>Delay and jitter\<close>

lemma delay_err: "fst (delay s g) = Inl e \<longleftrightarrow> s = - 1 \<and> e = ZeroDivisionError"
  by (auto simp: delay_def np_uniform_def random_sample_def py_truediv_def)

lemma jitter_err: "fst (jitter s g) = Inl e \<longleftrightarrow> s = - 1 \<and> e = ZeroDivisionError"
  by (auto simp: jitter_def np_uniform_def random_sample_def py_truediv_def)

lemma delay_ok:
  "s \<noteq> - 1 \<Longrightarrow>
   delay s g = (Inr (fst (np_uniform 10 50 g) / real_of_int (s + 1)), snd (np_uniform 10 50 g))"
  by (auto simp: delay_def np_uniform_def random_sample_def py_truediv_def)

lemma jitter_ok:
  "s \<noteq> - 1 \<Longrightarrow>
   jitter s g = (Inr (fst (np_uniform 1 10 g) / real_of_int (s + 1)), snd (np_uniform 1 10 g))"
  by (auto simp: jitter_def np_uniform_def random_sample_def py_truediv_def)

lemma qos_metrics_err:
  "fst (qos_metrics dr s g) = Inl e \<longleftrightarrow> s = - 1 \<and> e = ZeroDivisionError"
proof (cases "s = - 1")
  case True
  then have "fst (delay s g) = Inl ZeroDivisionError" by (simp add: delay_err)
  then show ?thesis using True
    by (cases "delay s g") (auto simp: qos_metrics_def)
next
  case False
  then show ?thesis
    by (simp add: qos_metrics_def delay_ok jitter_ok)
qed

text \<open>
  C9. The delay and the jitter divide by \<open>snr_db + 1\<close>. The division raises exactly when
  \<open>snr_db = -1\<close>, and that is the only error of the whole metrics section. For an SNR
  between 0 and 30 the divisor is at least 1 and delay, jitter and the section as a whole
  return a value.
\<close>

theorem delay_jitter_defined:
  "(fst (delay s g) = Inl ZeroDivisionError \<longleftrightarrow> s = - 1) \<and>
   (fst (jitter s g) = Inl ZeroDivisionError \<longleftrightarrow> s = - 1) \<and>
   (\<forall>e. fst (qos_metrics dr s g) = Inl e \<longleftrightarrow> s = - 1 \<and> e = ZeroDivisionError) \<and>
   (0 \<le> s \<and> s \<le> 30 \<longrightarrow>
      1 \<le> real_of_int (s + 1) \<and>
      fst (delay s g) = Inr (fst (np_uniform 10 50 g) / real_of_int (s + 1)) \<and>
      fst (jitter s g) = Inr (fst (np_uniform 1 10 g) / real_of_int (s + 1)) \<and>
      (\<exists>m. fst (qos_metrics dr s g) = Inr m))"
proof -
  have ok: "\<exists>m. fst (qos_metrics dr s g) = Inr m" if "s \<noteq> - 1"
    using that by (simp add: qos_metrics_def delay_ok jitter_ok)
  show ?thesis
    using ok by (auto simp: delay_err jitter_err qos_metrics_err delay_ok jitter_ok)
qed

theorem delay_jitter_defined_witness:
  "(0::int) \<le> 0 \<and> (0::int) \<le> 30 \<and> 1 \<le> real_of_int (0 + 1) \<and>
   fst (delay 0 (const_rng (1 / 2))) = Inr 30 \<and>
   fst (jitter 0 (const_rng (1 / 2))) = Inr (11 / 2) \<and>
   fst (delay (- 1) (const_rng (1 / 2))) = Inl ZeroDivisionError"
  using delay_jitter_defined [of 0 "const_rng (1 / 2)"]
    delay_jitter_defined [of "- 1" "const_rng (1 / 2)"]
  by (simp add: np_uniform_def random_sample_def const_rng_def)

subsection \<open>Bit error rate and throughput\<close>

text \<open>Euler's number from the Maclaurin series of \<open>exp\<close>, with eight terms.\<close>

lemma e_bounds: "27182 / 10000 < exp (1::real)" "exp (1::real) < 27184 / 10000"
proof -
  obtain t :: real where t: "\<bar>t\<bar> \<le> \<bar>1\<bar>"
      "exp (1::real) = (\<Sum>m<8. ((1::real) ^ m) / fact m) + (exp t / fact 8) * (1::real) ^ 8"
    using Maclaurin_exp_le [of 1 8] by blast
  have s: "(\<Sum>m<8. ((1::real) ^ m) / fact m) = (685 / 252 :: real)"
    by (simp add: lessThan_Suc eval_nat_numeral)
  have f8: "fact 8 = (40320 :: real)"
    by (simp add: eval_nat_numeral)
  have e: "exp 1 = 685 / 252 + exp t / 40320"
    using t(2) s f8 by simp
  have up: "exp t \<le> 3"
  proof -
    have "exp t \<le> exp 1" using t(1) by simp
    also have "\<dots> \<le> 3" by (rule exp_le)
    finally show ?thesis .
  qed
  have lo: "0 < exp t / 40320" by simp
  have hi: "exp t / 40320 \<le> 3 / 40320" using up by simp
  show "27182 / 10000 < exp (1::real)" using e lo by linarith
  show "exp (1::real) < 27184 / 10000" using e hi by linarith
qed

lemma exp_756: "2 ^ 1080 \<le> exp (756::real)"
proof -
  have "(2::real) ^ 10 \<le> (27 / 10) ^ 7" by (simp add: power_divide)
  also have "\<dots> \<le> exp 1 ^ 7"
    using e_bounds(1) by (intro power_mono) simp_all
  also have "\<dots> = exp (7::real)"
    by (simp add: exp_of_nat_mult [symmetric])
  finally have "(2::real) ^ 10 \<le> exp 7" .
  then have "((2::real) ^ 10) ^ 108 \<le> exp 7 ^ 108"
    by (intro power_mono) simp_all
  also have "\<dots> = exp (756::real)"
    by (simp add: exp_of_nat_mult [symmetric])
  finally show ?thesis by (simp add: power_mult [symmetric])
qed

lemma exp_738: "exp (738::real) \<le> 2 ^ 1066"
proof -
  have "exp (9::real) = exp 1 ^ 9"
    by (simp add: exp_of_nat_mult [symmetric])
  also have "\<dots> \<le> (272 / 100) ^ 9"
    using e_bounds(2) by (intro power_mono) simp_all
  also have "\<dots> \<le> 2 ^ 13" by (simp add: power_divide)
  finally have "exp (9::real) \<le> 2 ^ 13" .
  then have "exp (9::real) ^ 82 \<le> (2 ^ 13) ^ 82"
    by (intro power_mono) simp_all
  moreover have "exp (9::real) ^ 82 = exp 738"
    by (simp add: exp_of_nat_mult [symmetric])
  ultimately show ?thesis by (simp add: power_mult [symmetric])
qed

lemma f64_underflow_eq: "f64_underflow = 1 / 2 ^ 1075"
  by (simp add: f64_underflow_def powr_minus_divide)


text \<open>Where \<open>np_exp\<close> underflows and where it does not.\<close>

lemma np_exp_underflow: "x \<le> - 756 \<Longrightarrow> np_exp x = 0"
proof -
  assume x: "x \<le> - 756"
  have "exp x \<le> exp (- 756)" using x by simp
  also have "\<dots> = 1 / exp (756::real)" by (simp add: exp_minus')
  also have "\<dots> \<le> 1 / 2 ^ 1080"
    using exp_756 by (intro divide_left_mono) simp_all
  also have "\<dots> \<le> (1 / 2 ^ 1075 :: real)"
    by (intro divide_left_mono power_increasing) simp_all
  finally show ?thesis by (simp add: np_exp_def f64_underflow_eq)
qed

lemma np_exp_normal: "- 738 \<le> x \<Longrightarrow> np_exp x = exp x"
proof -
  assume x: "- 738 \<le> x"
  have "(1 / 2 ^ 1075 :: real) < 1 / 2 ^ 1066"
    by (intro divide_strict_left_mono power_strict_increasing) simp_all
  also have "\<dots> \<le> 1 / exp (738::real)"
    using exp_738 by (intro divide_left_mono) simp_all
  also have "\<dots> = exp (- 738)" by (simp add: exp_minus')
  also have "\<dots> \<le> exp x" using x by simp
  finally show ?thesis by (simp add: np_exp_def f64_underflow_eq)
qed

lemma np_exp_range: "0 \<le> np_exp x" "np_exp x \<le> exp x"
  by (simp_all add: np_exp_def)

lemma np_exp_mono: "x \<le> y \<Longrightarrow> np_exp x \<le> np_exp y"
  by (auto simp: np_exp_def intro: order_trans [of "exp x" "exp y"])

lemma np_exp_strict: "x < y \<Longrightarrow> np_exp y \<noteq> 0 \<Longrightarrow> np_exp x < np_exp y"
  by (auto simp: np_exp_def split: if_splits)

lemma snr_lin_strict: "a < b \<Longrightarrow> snr_lin a < snr_lin b"
  by (simp add: snr_lin_def powr_less_mono)

lemma snr_lin_mono: "a \<le> b \<Longrightarrow> snr_lin a \<le> snr_lin b"
  by (simp add: snr_lin_def powr_mono)

lemma snr_lin_values: "snr_lin 0 = 1" "snr_lin 30 = 1000"
  by (simp_all add: snr_lin_def)

lemma snr_lin_power: "snr_lin s ^ 10 = 10 powr s"
proof -
  have pos: "0 < (10::real) powr (s / 10)" by simp
  have "(10 powr (s / 10)) ^ 10 = (10 powr (s / 10)) powr (real 10)"
    using powr_realpow [OF pos, of 10] by simp
  also have "\<dots> = 10 powr s" by (simp add: powr_powr)
  finally show ?thesis by (simp add: snr_lin_def)
qed

lemma snr_lin_29: "756 \<le> snr_lin 29"
proof (rule ccontr)
  assume "\<not> 756 \<le> snr_lin 29"
  then have "snr_lin 29 < 756" by simp
  moreover have "0 \<le> snr_lin 29" by (simp add: snr_lin_def)
  ultimately have "snr_lin 29 ^ 10 < 756 ^ 10"
    by (intro power_strict_mono) simp_all
  then show False by (simp add: snr_lin_power)
qed

lemma snr_lin_28: "snr_lin 28 \<le> 738"
proof (rule ccontr)
  assume "\<not> snr_lin 28 \<le> 738"
  then have "(738::real) ^ 10 < snr_lin 28 ^ 10"
    by (intro power_strict_mono) simp_all
  then show False by (simp add: snr_lin_power)
qed

lemma ber_zero: "29 \<le> s \<Longrightarrow> ber s = 0"
proof -
  assume "29 \<le> s"
  then have "756 \<le> snr_lin s" using snr_lin_29 snr_lin_mono [of 29 s] by simp
  then show ?thesis by (simp add: ber_def np_exp_underflow)
qed

lemma ber_exact: "s \<le> 28 \<Longrightarrow> ber s = 0.5 * exp (- snr_lin s)"
proof -
  assume "s \<le> 28"
  then have "snr_lin s \<le> 738" using snr_lin_28 snr_lin_mono [of s 28] by simp
  then show ?thesis by (simp add: ber_def np_exp_normal)
qed

lemma ber_antimono: "a \<le> b \<Longrightarrow> ber b \<le> ber a"
  using np_exp_mono [of "- snr_lin b" "- snr_lin a"] snr_lin_mono [of a b]
  by (simp add: ber_def)

lemma ber_strict: "a < b \<Longrightarrow> ber a \<noteq> 0 \<Longrightarrow> ber b < ber a"
  using np_exp_strict [of "- snr_lin b" "- snr_lin a"] snr_lin_strict [of a b]
  by (simp add: ber_def)

lemma ber_range: "0 \<le> ber s" "ber s \<le> 1 / 2"
proof -
  show "0 \<le> ber s" using np_exp_range(1) [of "- snr_lin s"] by (simp add: ber_def)
  have "np_exp (- snr_lin s) \<le> exp (- snr_lin s)" by (rule np_exp_range)
  also have "\<dots> \<le> exp 0" by (subst exp_le_cancel_iff) (simp add: snr_lin_def)
  finally show "ber s \<le> 1 / 2" by (simp add: ber_def)
qed

lemma ber_0: "ber 0 = 0.5 * exp (- 1)" "1839 / 10000 < ber 0" "ber 0 < 1840 / 10000"
proof -
  show v: "ber 0 = 0.5 * exp (- 1)"
    using ber_exact [of 0] by (simp add: snr_lin_values)
  have inv: "exp (- 1 :: real) = 1 / exp 1" by (simp add: exp_minus')
  have "(3678 / 10000 :: real) < 1 / (27184 / 10000)" by simp
  also have "\<dots> < 1 / exp 1"
    using e_bounds(2) by (intro divide_strict_left_mono) simp_all
  finally show "1839 / 10000 < ber 0" unfolding v inv by simp
  have "1 / exp (1::real) < 1 / (27182 / 10000)"
    using e_bounds(1) by (intro divide_strict_left_mono) simp_all
  also have "\<dots> < (3680 / 10000 :: real)" by simp
  finally show "ber 0 < 1840 / 10000" unfolding v inv by simp
qed

lemma ber_30: "ber 30 = 0" "exp (- snr_lin 30) = exp (- 1000)" "exp (- 1000 :: real) \<le> f64_underflow"
proof -
  show "ber 30 = 0" by (simp add: ber_zero)
  show "exp (- snr_lin 30) = exp (- 1000)" by (simp add: snr_lin_values)
  have "np_exp (- 1000) = 0" by (simp add: np_exp_underflow)
  then show "exp (- 1000 :: real) \<le> f64_underflow"
    by (simp add: np_exp_def split: if_splits)
qed


text \<open>
  C1 (as amended). The bit error rate never increases with the SNR, and it decreases strictly
  from every SNR at which it is not zero. Up to 28 dB it is the exact value
  \<open>0.5 * exp (- (10 powr (snr_db / 10)))\<close>, which is positive; from 29 dB on the
  exponential is below the binary64 range and the bit error rate is 0. At 0 dB it is
  \<open>0.5 * exp (- 1)\<close>, between 0.1839 and 0.1840. At 30 dB the linear SNR is 1000 and the
  exact value \<open>0.5 * exp (- 1000)\<close> is positive, but \<open>exp (- 1000)\<close> is below the
  underflow threshold, so the computed bit error rate is 0.
\<close>

theorem ber_decreasing:
  "(\<forall>a b. a \<le> b \<longrightarrow> ber b \<le> ber a) \<and>
   (\<forall>a b. a < b \<and> ber a \<noteq> 0 \<longrightarrow> ber b < ber a) \<and>
   (\<forall>s. s \<le> 28 \<longrightarrow> ber s = 0.5 * exp (- (10 powr (s / 10))) \<and> 0 < ber s) \<and>
   (\<forall>s. 29 \<le> s \<longrightarrow> ber s = 0) \<and>
   ber 0 = 0.5 * exp (- 1) \<and> 1839 / 10000 < ber 0 \<and> ber 0 < 1840 / 10000 \<and>
   10 powr (30 / 10) = (1000::real) \<and> 0 < 0.5 * exp (- 1000 :: real) \<and>
   exp (- 1000 :: real) \<le> f64_underflow \<and> ber 30 = 0"
proof -
  have low: "\<forall>s. s \<le> 28 \<longrightarrow> ber s = 0.5 * exp (- (10 powr (s / 10))) \<and> 0 < ber s"
  proof (intro allI impI)
    fix s :: real
    assume "s \<le> 28"
    then have v: "ber s = 0.5 * exp (- (10 powr (s / 10)))"
      using ber_exact [of s] by (simp add: snr_lin_def)
    moreover have "0 < 0.5 * exp (- (10 powr (s / 10)))" by simp
    ultimately show "ber s = 0.5 * exp (- (10 powr (s / 10))) \<and> 0 < ber s"
      by (simp only:)
  qed
  have lin: "10 powr (30 / 10) = (1000::real)"
    using snr_lin_values(2) by (simp add: snr_lin_def)
  have pos: "0 < 0.5 * exp (- 1000 :: real)" by simp
  from ber_antimono ber_strict low ber_zero ber_0 lin pos ber_30(3) ber_30(1)
  show ?thesis by blast
qed

theorem ber_decreasing_witness:
  "(0::real) < 10 \<and> ber 0 \<noteq> 0 \<and> ber 10 < ber 0 \<and> (10::real) \<le> 28 \<and> 0 < ber 10 \<and>
   (29::real) \<le> 30 \<and> ber 30 = 0"
proof -
  have z: "ber 0 \<noteq> 0" using ber_decreasing by force
  have "\<forall>a b. a < b \<and> ber a \<noteq> 0 \<longrightarrow> ber b < ber a"
    using ber_decreasing by blast
  then have d: "ber 10 < ber 0" using z by simp
  have "\<forall>s. s \<le> 28 \<longrightarrow> ber s = 0.5 * exp (- (10 powr (s / 10))) \<and> 0 < ber s"
    using ber_decreasing by blast
  then have p: "0 < ber 10" by simp
  have e: "ber 30 = 0" using ber_decreasing by blast
  from z d p e show ?thesis by simp
qed

text \<open>
  C1 as stated fails between 29 dB and 30 dB: both bit error rates have underflowed to 0, so
  the second is not smaller than the first.
\<close>

theorem ber_strict_counterexample:
  "(29::real) < 30 \<and> ber 29 = 0 \<and> ber 30 = 0 \<and> \<not> ber 30 < ber 29"
  by (simp add: ber_zero)

lemma qos_metrics_Inr:
  "fst (qos_metrics dr snr g) = Inr m \<Longrightarrow>
   m_ber m = ber (real_of_int snr) \<and> m_throughput m = throughput dr (ber (real_of_int snr)) \<and>
   m_plr m = ber (real_of_int snr) * 100"
  by (cases "delay snr g"; cases "jitter snr (snd (delay snr g))")
     (auto simp: qos_metrics_def plr_def split: sum.splits)

text \<open>
  C4. Whenever the metrics section returns, its BER is the bit error rate of the SNR and its
  throughput is the data rate times one minus that BER; the throughput falls short of the
  data rate by the data rate times the BER. As the BER tends to 0 the throughput tends to the
  data rate, and so it does as the SNR grows, since the BER then tends to 0.
\<close>

theorem throughput_formula:
  "(\<forall>snr g m. fst (qos_metrics dr snr g) = Inr m \<longrightarrow>
      m_ber m = ber (real_of_int snr) \<and> m_throughput m = dr * (1 - m_ber m)) \<and>
   throughput dr b = dr * (1 - b) \<and> dr - throughput dr b = dr * b \<and>
   (throughput dr \<longlongrightarrow> dr) (at 0) \<and>
   (ber \<longlongrightarrow> 0) at_top \<and>
   ((\<lambda>s. throughput dr (ber s)) \<longlongrightarrow> dr) at_top"
proof -
  have rec: "\<forall>snr g m. fst (qos_metrics dr snr g) = Inr m \<longrightarrow>
      m_ber m = ber (real_of_int snr) \<and> m_throughput m = dr * (1 - m_ber m)"
    using qos_metrics_Inr by (simp add: throughput_def)
  have form: "throughput dr b = dr * (1 - b)" "dr - throughput dr b = dr * b"
    by (simp_all add: throughput_def algebra_simps)
  have lim0: "(throughput dr \<longlongrightarrow> dr) (at 0)"
  proof -
    have "((\<lambda>b. dr * (1 - b)) \<longlongrightarrow> dr * (1 - 0)) (at 0)"
      by (intro tendsto_intros)
    then show ?thesis by (simp add: throughput_def [abs_def])
  qed
  have ev: "eventually (\<lambda>s. ber s = 0) at_top"
    unfolding eventually_at_top_linorder using ber_zero by blast
  have limb: "(ber \<longlongrightarrow> 0) at_top"
    using ev by (rule tendsto_eventually)
  have "eventually (\<lambda>s. throughput dr (ber s) = dr) at_top"
    using ev by (rule eventually_mono) (simp add: throughput_def)
  then have limt: "((\<lambda>s. throughput dr (ber s)) \<longlongrightarrow> dr) at_top"
    by (rule tendsto_eventually)
  from rec form lim0 limb limt show ?thesis by blast
qed

theorem throughput_formula_witness:
  "\<exists>m. fst (qos_metrics 7 10 (const_rng (1 / 2))) = Inr m \<and> m_ber m = ber 10 \<and>
     m_throughput m = 7 * (1 - m_ber m)"
proof -
  have "\<exists>m. fst (qos_metrics 7 10 (const_rng (1 / 2))) = Inr m"
    by (simp add: qos_metrics_def delay_ok jitter_ok)
  then obtain m where m: "fst (qos_metrics 7 10 (const_rng (1 / 2))) = Inr m" ..
  have "\<forall>snr g m. fst (qos_metrics 7 snr g) = Inr m \<longrightarrow>
      m_ber m = ber (real_of_int snr) \<and> m_throughput m = 7 * (1 - m_ber m)"
    using throughput_formula [of 7] by blast
  with m have "m_ber m = ber 10 \<and> m_throughput m = 7 * (1 - m_ber m)" by fastforce
  with m show ?thesis by blast
qed

subsection \<open>The monitoring loop\<close>

lemma np_uniform_eq: "np_uniform low high g = (low + (high - low) * g 0, \<lambda>k. g (Suc k))"
  by (simp add: np_uniform_def random_sample_def)

lemma monitor_loop_Suc:
  "monitor_loop dr snr (Suc n) g = monitor_step dr snr n (monitor_loop dr snr n g)"
  by (simp add: monitor_loop_def)

lemma monitor_loop_eq:
  "monitor_loop dr snr n g =
     (\<lparr>x_vals = [0..<n],
       ber_vals = map (\<lambda>t. ber (real_of_int snr + (- 2 + 4 * g t))) [0..<n],
       thr_vals = map (\<lambda>t. throughput dr (ber (real_of_int snr + (- 2 + 4 * g t))) / 10 ^ 6) [0..<n]\<rparr>,
      \<lambda>k. g (n + k))"
proof (induction n)
  case 0
  show ?case by (simp add: monitor_loop_def)
next
  case (Suc n)
  show ?case
    unfolding monitor_loop_Suc Suc.IH
    by (simp add: monitor_step_def np_uniform_eq ber_def snr_lin_def throughput_def Let_def)
qed

text \<open>
  C5 (as amended). With the button pressed, a run returns three sequences of length 30, the
  time values being 0, ..., 29 in this order; without it nothing is appended. At step
  \<open>t\<close> the offset is the next draw of \<open>np.random.uniform(-2, 2)\<close>, which lies between
  -2 and 2 when the unit samples lie in [0, 1). The appended BER is the bit error rate of the
  SNR plus the offset, and the appended throughput is the throughput for that BER divided
  by \<open>10 ^ 6\<close>, that is, in Mbps.
\<close>

theorem live_simulation_run:
  assumes "unit_samples g"
  shows "\<exists>m g' offs. live_simulation True dr snr g = Some (m, g') \<and>
     x_vals m = [0..<30] \<and>
     length (x_vals m) = 30 \<and> length (ber_vals m) = 30 \<and> length (thr_vals m) = 30 \<and>
     offs = map (\<lambda>t. fst (np_uniform (- 2) 2 (\<lambda>k. g (t + k)))) [0..<30] \<and>
     (\<forall>x \<in> set offs. - 2 \<le> x \<and> x \<le> 2) \<and>
     ber_vals m = map (\<lambda>x. ber (real_of_int snr + x)) offs \<and>
     thr_vals m = map (\<lambda>x. throughput dr (ber (real_of_int snr + x)) / 10 ^ 6) offs \<and>
     live_simulation False dr snr g = None"
proof -
  define offs where "offs = map (\<lambda>t. fst (np_uniform (- 2) 2 (\<lambda>k. g (t + k)))) [0..<30]"
  have offs: "offs = map (\<lambda>t. - 2 + 4 * g t) [0..<30]"
    by (simp add: offs_def np_uniform_eq)
  have rng: "\<forall>x \<in> set offs. - 2 \<le> x \<and> x \<le> 2"
  proof
    fix x assume "x \<in> set offs"
    then obtain t where "x = - 2 + 4 * g t" unfolding offs by auto
    moreover have "0 \<le> g t" "g t < 1" using assms by (simp_all add: unit_samples_def)
    ultimately show "- 2 \<le> x \<and> x \<le> 2" by simp
  qed
  define m where "m = fst (monitor_loop dr snr 30 g)"
  have run: "live_simulation True dr snr g = Some (m, snd (monitor_loop dr snr 30 g))"
    by (simp add: live_simulation_def m_def)
  have x: "x_vals m = [0..<30]" by (simp add: m_def monitor_loop_eq)
  have b: "ber_vals m = map (\<lambda>x. ber (real_of_int snr + x)) offs"
    by (simp add: m_def monitor_loop_eq offs comp_def)
  have t: "thr_vals m = map (\<lambda>x. throughput dr (ber (real_of_int snr + x)) / 10 ^ 6) offs"
    by (simp add: m_def monitor_loop_eq offs comp_def)
  have len: "length (x_vals m) = 30" "length (ber_vals m) = 30" "length (thr_vals m) = 30"
    by (simp_all add: m_def monitor_loop_eq)
  have idle: "live_simulation False dr snr g = None" by (simp add: live_simulation_def)
  from run x len offs_def rng b t idle show ?thesis by blast
qed

lemma unit_samples_const: "0 \<le> u \<Longrightarrow> u < 1 \<Longrightarrow> unit_samples (const_rng u)"
  by (simp add: unit_samples_def const_rng_def)

theorem live_simulation_run_witness:
  "unit_samples (const_rng (1 / 2)) \<and>
   (\<exists>m g'. live_simulation True 7 10 (const_rng (1 / 2)) = Some (m, g') \<and>
      x_vals m = [0..<30] \<and> length (ber_vals m) = 30 \<and> length (thr_vals m) = 30)"
proof -
  have u: "unit_samples (const_rng (1 / 2))" by (simp add: unit_samples_const)
  from live_simulation_run [OF u, of 7 10] u show ?thesis by blast
qed

text \<open>
  C5 as stated fails on the throughput: at the data rate \<open>40000000 / 7\<close> of 10 MHz with
  16-QAM, an SNR of 30 dB and offsets 0, the throughput of the formula is \<open>40000000 / 7\<close>, and the value
  appended at the first step is \<open>40 / 7\<close>.
\<close>

theorem live_simulation_counterexample:
  "thr_vals (fst (the (live_simulation True (40000000 / 7) 30 (const_rng (1 / 2))))) ! 0 = 40 / 7 \<and>
   throughput (40000000 / 7) (ber (30 + 0)) = 40000000 / 7 \<and>
   thr_vals (fst (the (live_simulation True (40000000 / 7) 30 (const_rng (1 / 2))))) ! 0 \<noteq>
     throughput (40000000 / 7) (ber (30 + 0))"
proof -
  have b: "ber 30 = 0" by (simp add: ber_zero)
  have "thr_vals (fst (the (live_simulation True (40000000 / 7) 30 (const_rng (1 / 2))))) ! 0 =
      throughput (40000000 / 7) (ber 30) / 10 ^ 6"
    by (simp add: live_simulation_def monitor_loop_eq const_rng_def)
  then show ?thesis by (simp add: b throughput_def)
qed

subsection \<open>The slot schedule\<close>

text \<open>Rounding a value whose binary exponent is known.\<close>

lemma f64_round_at:
  assumes "2 powr (of_int e) \<le> \<bar>x\<bar>" and "\<bar>x\<bar> < 2 powr (of_int e + 1)" and "- 1022 \<le> e"
  shows "f64_round x = of_int (round_half_even (x / 2 powr (of_int e - 52))) * 2 powr (of_int e - 52)"
proof -
  have pos: "0 < \<bar>x\<bar>" using assms(1) powr_gt_zero [of 2 "of_int e"] by linarith
  then have nz: "x \<noteq> 0" by simp
  have "\<lfloor>log 2 \<bar>x\<bar>\<rfloor> = e"
    using assms(1,2) pos by (simp add: floor_log_eq_powr_iff)
  then show ?thesis using nz assms(3) by (simp add: f64_round_def Let_def max_def)
qed

text \<open>The binary64 values of the literals \<open>0.3\<close> and \<open>0.2\<close>.\<close>

lemma d3: "f64_round (3 / 10) = 5404319552844595 / 2 ^ 54"
  using f64_round_at [of "- 2" "3 / 10"]
  by (simp add: powr_minus_divide round_half_even_def Let_def)


lemma d2: "f64_round (2 / 10) = 3602879701896397 / 2 ^ 54"
  using f64_round_at [of "- 3" "2 / 10"]
  by (simp add: powr_minus_divide round_half_even_def Let_def)

lemma schedule_p_eq:
  "schedule_p = [5404319552844595 / 2 ^ 54, 5404319552844595 / 2 ^ 54,
                 3602879701896397 / 2 ^ 54, 3602879701896397 / 2 ^ 54]"
  by (simp only: schedule_p_def d3 d2)

lemma f64_exact_3: "f64_round (5404319552844595 / 2 ^ 54) = 5404319552844595 / 2 ^ 54"
  using f64_round_at [of "- 2" "5404319552844595 / 2 ^ 54"]
  by (simp add: powr_minus_divide round_half_even_def Let_def)

lemma f64_exact_6: "f64_round (5404319552844595 / 2 ^ 53) = 5404319552844595 / 2 ^ 53"
  using f64_round_at [of "- 1" "5404319552844595 / 2 ^ 53"]
  by (simp add: powr_minus_divide round_half_even_def Let_def)

lemma f64_exact_8: "f64_round (7205759403792794 / 2 ^ 53) = 7205759403792794 / 2 ^ 53"
  using f64_round_at [of "- 1" "7205759403792794 / 2 ^ 53"]
  by (simp add: powr_minus_divide round_half_even_def Let_def)

lemma f64_exact_1: "f64_round 1 = 1"
  using f64_round_at [of 0 1]
  by (simp add: powr_minus_divide round_half_even_def Let_def)

lemma f64_sum_8: "f64_round (14411518807585587 / 2 ^ 54) = 7205759403792794 / 2 ^ 53"
  using f64_round_at [of "- 1" "14411518807585587 / 2 ^ 54"]
  by (simp add: powr_minus_divide round_half_even_def Let_def)

lemma f64_sum_1: "f64_round (18014398509481985 / 2 ^ 54) = 1"
  using f64_round_at [of 0 "18014398509481985 / 2 ^ 54"]
  by (simp add: powr_minus_divide round_half_even_def Let_def)

text \<open>
  The cumulative sums: \<open>0.3 + 0.3\<close> is exact and lies below \<open>6 / 10\<close>; adding
  \<open>0.2\<close> gives a tie that rounds up to even; the last sum is \<open>1 + 2 powr (-54)\<close> and
  rounds to 1.
\<close>

lemma schedule_cumsum:
  "np_cumsum schedule_p =
     [5404319552844595 / 2 ^ 54, 5404319552844595 / 2 ^ 53, 7205759403792794 / 2 ^ 53, 1]"
proof -
  have a1: "f64_add 0 (5404319552844595 / 2 ^ 54) = 5404319552844595 / 2 ^ 54"
    using f64_exact_3 by (simp add: f64_add_def)
  have a2: "f64_add (5404319552844595 / 2 ^ 54) (5404319552844595 / 2 ^ 54) =
      5404319552844595 / 2 ^ 53"
    using f64_exact_6 by (simp add: f64_add_def)
  have a3: "f64_add (5404319552844595 / 2 ^ 53) (3602879701896397 / 2 ^ 54) =
      7205759403792794 / 2 ^ 53"
    using f64_sum_8 by (simp add: f64_add_def)
  have a4: "f64_add (7205759403792794 / 2 ^ 53) (3602879701896397 / 2 ^ 54) = 1"
    using f64_sum_1 by (simp add: f64_add_def)
  show ?thesis
    by (simp only: schedule_p_eq np_cumsum_def cumsum_from.simps a1 a2 a3 a4)
qed

lemma schedule_cdf:
  "choice_cdf schedule_p =
     [5404319552844595 / 2 ^ 54, 5404319552844595 / 2 ^ 53, 7205759403792794 / 2 ^ 53, 1]"
proof -
  have d: "f64_div (5404319552844595 / 2 ^ 54) 1 = 5404319552844595 / 2 ^ 54"
      "f64_div (5404319552844595 / 2 ^ 53) 1 = 5404319552844595 / 2 ^ 53"
      "f64_div (7205759403792794 / 2 ^ 53) 1 = 7205759403792794 / 2 ^ 53"
      "f64_div 1 1 = 1"
    using f64_exact_3 f64_exact_6 f64_exact_8 f64_exact_1 by (simp_all add: f64_div_def)
  have l: "last [5404319552844595 / 2 ^ 54, 5404319552844595 / 2 ^ 53,
      7205759403792794 / 2 ^ 53, 1 :: real] = 1"
    by simp
  show ?thesis
    by (simp only: choice_cdf_def schedule_cumsum Let_def l list.map d)
qed


lemma searchsorted_four:
  "searchsorted_right [t1, t2, t3, t4] u =
     (if u < t1 then 0 else if u < t2 then 1 else if u < t3 then 2 else if u < t4 then 3 else 4)"
  by (simp add: searchsorted_right_def)

lemma slot_class_eq:
  assumes "u < 1"
  shows "slot_class u =
     Inr (if u < 5404319552844595 / 2 ^ 54 then ''UGS''
          else if u < 5404319552844595 / 2 ^ 53 then ''rtPS''
          else if u < 7205759403792794 / 2 ^ 53 then ''nrtPS'' else ''BE'')"
  unfolding slot_class_def schedule_cdf searchsorted_four Let_def
  using assms by (simp add: traffic_classes_def)

lemma random_samples_eq: "random_samples n g = (map g [0..<n], \<lambda>k. g (n + k))"
proof (induction n arbitrary: g)
  case 0
  show ?case by simp
next
  case (Suc n)
  have "map g [0..<Suc n] = g 0 # map (\<lambda>k. g (Suc k)) [0..<n]"
    by (rule map_upt_Suc)
  then show ?case
    by (simp add: Suc.IH random_sample_def del: upt_Suc)
qed

lemma fancy_index_slots:
  "fancy_index traffic_classes (map (searchsorted_right (choice_cdf schedule_p)) us) = Inr cs
     \<longleftrightarrow> map slot_class us = map Inr cs"
proof (induction us arbitrary: cs)
  case Nil
  show ?case by auto
next
  case (Cons u us)
  show ?case
  proof (cases cs)
    case Nil
    then show ?thesis by (auto split: sum.splits)
  next
    case (Cons x xs)
    then show ?thesis
      using Cons.IH [of xs] by (auto simp: slot_class_def Let_def split: sum.splits)
  qed
qed

lemma schedule_run:
  "schedule g = (fancy_index traffic_classes
      (map (searchsorted_right (choice_cdf schedule_p)) (map g [0..<20])), \<lambda>k. g (20 + k))"
proof -
  have chk: "traffic_classes \<noteq> []" "length schedule_p = length traffic_classes"
      "\<not> list_ex (\<lambda>x. x < 0) schedule_p" "\<not> 1 / 2 ^ 26 < \<bar>sum_list schedule_p - 1\<bar>"
    by (simp_all add: schedule_p_eq traffic_classes_def)
  show ?thesis
    using chk by (simp add: schedule_def np_choice_def slots_def random_samples_eq)
qed

lemma schedule_slot_classes:
  "fst (schedule g) = Inr cs \<longleftrightarrow> map (\<lambda>k. slot_class (g k)) [0..<20] = map Inr cs"
proof -
  have "fst (schedule g) = Inr cs \<longleftrightarrow> map slot_class (map g [0..<20]) = map Inr cs"
    by (simp only: schedule_run fst_conv fancy_index_slots)
  then show ?thesis by (simp add: comp_def)
qed


text \<open>Counting the samples of the grid that give each class.\<close>

lemma grid_less_54: "(grid_sample k < real a / 2 ^ 54) = (2 * k < a)"
proof -
  have "(real k / 2 ^ 53 < real a / 2 ^ 54) = (real (2 * k) < real a)"
    by (simp add: field_simps)
  then show ?thesis by (simp only: of_nat_less_iff grid_sample_def)
qed

lemma grid_less_53: "(grid_sample k < real a / 2 ^ 53) = (k < a)"
  by (simp add: field_simps grid_sample_def)

lemma inj_grid_sample: "inj_on grid_sample A"
  by (rule inj_onI) (simp add: grid_sample_def)

lemma grid_sample_unit: "k < 2 ^ 53 \<Longrightarrow> 0 \<le> grid_sample k \<and> grid_sample k < 1"
  by (simp add: grid_sample_def)

lemma sample_grid_unit: "u \<in> sample_grid \<Longrightarrow> 0 \<le> u \<and> u < 1"
  using grid_sample_unit by (auto simp: sample_grid_def)

lemma finite_sample_grid: "finite sample_grid"
  by (simp add: sample_grid_def)

lemma card_sample_grid: "card sample_grid = 2 ^ 53"
  by (simp add: sample_grid_def card_image inj_grid_sample)

lemma grid_count:
  assumes iff: "\<And>k. k < 2 ^ 53 \<Longrightarrow> (slot_class (grid_sample k) = Inr cl) = (lo \<le> k \<and> k < hi)"
    and hi: "hi \<le> 2 ^ 53"
  shows "class_count cl = hi - lo"
proof -
  have "{u \<in> sample_grid. slot_class u = Inr cl} = grid_sample ` {lo..<hi}"
  proof (intro set_eqI iffI)
    fix u assume "u \<in> {u \<in> sample_grid. slot_class u = Inr cl}"
    then obtain k where k: "k < 2 ^ 53" "u = grid_sample k" "slot_class u = Inr cl"
      by (auto simp: sample_grid_def)
    then have "lo \<le> k \<and> k < hi" using iff [OF k(1)] by simp
    then show "u \<in> grid_sample ` {lo..<hi}" using k(2) by simp
  next
    fix u assume "u \<in> grid_sample ` {lo..<hi}"
    then obtain k where k: "lo \<le> k" "k < hi" "u = grid_sample k" by auto
    then have lt: "k < 2 ^ 53" using hi by simp
    then have "slot_class u = Inr cl" using iff [OF lt] k by simp
    moreover have "u \<in> sample_grid" using lt k(3) by (simp add: sample_grid_def)
    ultimately show "u \<in> {u \<in> sample_grid. slot_class u = Inr cl}" by simp
  qed
  then show ?thesis by (simp add: class_count_def card_image inj_grid_sample)
qed

lemma slot_class_grid:
  assumes "k < 2 ^ 53"
  shows "slot_class (grid_sample k) =
     Inr (if k < 2702159776422298 then ''UGS''
          else if k < 5404319552844595 then ''rtPS''
          else if k < 7205759403792794 then ''nrtPS'' else ''BE'')"
proof -
  have u: "grid_sample k < 1" using grid_sample_unit [OF assms] by simp
  have a: "(grid_sample k < 5404319552844595 / 2 ^ 54) = (k < 2702159776422298)"
    using grid_less_54 [of k 5404319552844595] by auto
  have b: "(grid_sample k < 5404319552844595 / 2 ^ 53) = (k < 5404319552844595)"
    using grid_less_53 [of k 5404319552844595] by simp
  have c3: "(grid_sample k < 7205759403792794 / 2 ^ 53) = (k < 7205759403792794)"
    using grid_less_53 [of k 7205759403792794] by simp
  show ?thesis
    by (simp only: slot_class_eq [OF u] a b c3)
qed

lemma class_counts:
  "class_count ''UGS'' = 2702159776422298"
  "class_count ''rtPS'' = 2702159776422297"
  "class_count ''nrtPS'' = 1801439850948199"
  "class_count ''BE'' = 1801439850948198"
proof -
  have "class_count ''UGS'' = 2702159776422298 - 0"
    by (rule grid_count) (auto simp: slot_class_grid)
  then show "class_count ''UGS'' = 2702159776422298" by simp
  have "class_count ''rtPS'' = 5404319552844595 - 2702159776422298"
    by (rule grid_count) (auto simp: slot_class_grid)
  then show "class_count ''rtPS'' = 2702159776422297" by simp
  have "class_count ''nrtPS'' = 7205759403792794 - 5404319552844595"
    by (rule grid_count) (auto simp: slot_class_grid)
  then show "class_count ''nrtPS'' = 1801439850948199" by simp
  have "class_count ''BE'' = 2 ^ 53 - 7205759403792794"
    by (rule grid_count) (auto simp: slot_class_grid)
  then show "class_count ''BE'' = 1801439850948198" by simp
qed


text \<open>
  The lists over \<open>G\<close> whose entries have the classes \<open>cs\<close>, one by one: their number is
  the product of the numbers of entries of each class.
\<close>

lemma card_lists_by_class:
  assumes "finite G"
  shows "card {us. set us \<subseteq> G \<and> map f us = cs} =
     prod_list (map (\<lambda>cl. card {u \<in> G. f u = cl}) cs)"
proof (induction cs)
  case Nil
  have "{us. set us \<subseteq> G \<and> map f us = []} = {[]}" by auto
  then show ?case by simp
next
  case (Cons cl cs)
  let ?A = "{u \<in> G. f u = cl}"
  let ?B = "{us. set us \<subseteq> G \<and> map f us = cs}"
  have "{us. set us \<subseteq> G \<and> map f us = cl # cs} = (\<lambda>(u, us). u # us) ` (?A \<times> ?B)"
    by (auto simp: image_iff map_eq_Cons_conv)
  moreover have "inj_on (\<lambda>(u, us). u # us) (?A \<times> ?B)"
    by (auto simp: inj_on_def)
  ultimately have "card {us. set us \<subseteq> G \<and> map f us = cl # cs} = card (?A \<times> ?B)"
    by (simp add: card_image)
  then show ?case by (simp add: card_cartesian_product Cons.IH)
qed

lemma rng_of_unit: "set us \<subseteq> sample_grid \<Longrightarrow> unit_samples (rng_of us)"
  using sample_grid_unit by (auto simp: unit_samples_def rng_of_def subset_iff)

lemma schedule_rng_of:
  assumes "length us = 20"
  shows "fst (schedule (rng_of us)) = Inr cs \<longleftrightarrow> map slot_class us = map Inr cs"
proof -
  have "map (\<lambda>k. slot_class (rng_of us k)) [0..<20] = map (\<lambda>k. slot_class (us ! k)) [0..<length us]"
    using assms by (simp add: rng_of_def)
  also have "\<dots> = map slot_class (map (\<lambda>k. us ! k) [0..<length us])"
    by (simp add: comp_def)
  also have "\<dots> = map slot_class us"
    by (simp only: map_nth)
  finally show ?thesis by (simp only: schedule_slot_classes)
qed

lemma schedule_count:
  assumes "length cs = 20"
  shows "card {us \<in> sample_lists 20. fst (schedule (rng_of us)) = Inr cs} =
     prod_list (map class_count cs)"
proof -
  have "{us \<in> sample_lists 20. fst (schedule (rng_of us)) = Inr cs} =
      {us. set us \<subseteq> sample_grid \<and> map slot_class us = map Inr cs}"
  proof (intro set_eqI iffI)
    fix us assume "us \<in> {us \<in> sample_lists 20. fst (schedule (rng_of us)) = Inr cs}"
    then have "length us = 20" "set us \<subseteq> sample_grid" "fst (schedule (rng_of us)) = Inr cs"
      by (simp_all add: sample_lists_def)
    then show "us \<in> {us. set us \<subseteq> sample_grid \<and> map slot_class us = map Inr cs}"
      using schedule_rng_of [of us cs] by simp
  next
    fix us assume a: "us \<in> {us. set us \<subseteq> sample_grid \<and> map slot_class us = map Inr cs}"
    then have "length (map slot_class us) = length (map Inr cs)" by simp
    then have "length us = 20" using assms by simp
    then show "us \<in> {us \<in> sample_lists 20. fst (schedule (rng_of us)) = Inr cs}"
      using a schedule_rng_of [of us cs] by (simp add: sample_lists_def)
  qed
  then have "card {us \<in> sample_lists 20. fst (schedule (rng_of us)) = Inr cs} =
      prod_list (map (\<lambda>x. card {u \<in> sample_grid. slot_class u = x}) (map Inr cs))"
    by (simp only: card_lists_by_class [OF finite_sample_grid])
  then show ?thesis by (simp add: comp_def class_count_def [abs_def])
qed

lemma card_sample_lists: "card (sample_lists n) = (2 ^ 53) ^ n"
proof -
  have "sample_lists n = {us. set us \<subseteq> sample_grid \<and> length us = n}"
    by (auto simp: sample_lists_def)
  then show ?thesis
    by (simp only: card_lists_length_eq [OF finite_sample_grid] card_sample_grid)
qed

lemma schedule_classes:
  assumes "unit_samples g"
  shows "schedule g =
     (Inr (map (\<lambda>k. if g k < 5404319552844595 / 2 ^ 54 then ''UGS''
                     else if g k < 5404319552844595 / 2 ^ 53 then ''rtPS''
                     else if g k < 7205759403792794 / 2 ^ 53 then ''nrtPS''
                     else ''BE'') [0..<20]),
      \<lambda>k. g (20 + k))"
proof -
  let ?pick = "\<lambda>k. if g k < 5404319552844595 / 2 ^ 54 then ''UGS''
                     else if g k < 5404319552844595 / 2 ^ 53 then ''rtPS''
                     else if g k < 7205759403792794 / 2 ^ 53 then ''nrtPS''
                     else ''BE''"
  have u: "g k < 1" for k using assms by (simp add: unit_samples_def)
  have "map (\<lambda>k. slot_class (g k)) [0..<20] = map Inr (map ?pick [0..<20])"
    by (simp only: slot_class_eq [OF u] map_map comp_def)
  then have "fst (schedule g) = Inr (map ?pick [0..<20])"
    by (simp only: schedule_slot_classes)
  moreover have "snd (schedule g) = (\<lambda>k. g (20 + k))"
    by (simp add: schedule_run)
  ultimately show ?thesis by (simp add: prod_eq_iff)
qed


text \<open>
  C8. Whatever unit samples in [0, 1) the random source hands out, the arguments pass the
  checks of \<open>np.random.choice\<close> and the schedule is returned without error, has length 20
  and holds only the four classes UGS, rtPS, nrtPS and BE. Slot \<open>k\<close> is decided by the
  \<open>k\<close>-th unit sample alone, by comparing it with the binary64 cumulative sums of 0.3,
  0.3, 0.2 and 0.2. The draws are independent with fixed probabilities: of the
  \<open>(2 ^ 53) ^ 20\<close> equally likely outcomes of 20 draws, the number that give a schedule
  \<open>cs\<close> is the product, over the 20 slots, of the number of samples that give the class of
  the slot, whatever the classes of the other slots are. These numbers add up to the
  \<open>2 ^ 53\<close> samples, and divided by \<open>2 ^ 53\<close> they are the probabilities of UGS, rtPS,
  nrtPS and BE, which are 0.3, 0.3, 0.2 and 0.2 to within the resolution \<open>2 powr (-53)\<close> of
  binary64. Nothing keeps two slots from getting the same class.
\<close>

theorem schedule_slots:
  "(\<forall>g. unit_samples g \<longrightarrow>
      (\<exists>sched. schedule g = (Inr sched, \<lambda>k. g (20 + k)) \<and>
         length sched = 20 \<and>
         set sched \<subseteq> {''UGS'', ''rtPS'', ''nrtPS'', ''BE''} \<and>
         sched = map (\<lambda>k. if g k < 5404319552844595 / 2 ^ 54 then ''UGS''
                           else if g k < 5404319552844595 / 2 ^ 53 then ''rtPS''
                           else if g k < 7205759403792794 / 2 ^ 53 then ''nrtPS''
                           else ''BE'') [0..<20])) \<and>
   card (sample_lists 20) = (2 ^ 53) ^ 20 \<and>
   (\<forall>cs. length cs = 20 \<longrightarrow>
      card {us \<in> sample_lists 20. fst (schedule (rng_of us)) = Inr cs} =
        prod_list (map class_count cs)) \<and>
   class_count ''UGS'' = 2702159776422298 \<and>
   class_count ''rtPS'' = 2702159776422297 \<and>
   class_count ''nrtPS'' = 1801439850948199 \<and>
   class_count ''BE'' = 1801439850948198 \<and>
   class_count ''UGS'' + class_count ''rtPS'' + class_count ''nrtPS'' + class_count ''BE'' = 2 ^ 53 \<and>
   \<bar>real (class_count ''UGS'') / 2 ^ 53 - 3 / 10\<bar> < 1 / 2 ^ 53 \<and>
   \<bar>real (class_count ''rtPS'') / 2 ^ 53 - 3 / 10\<bar> < 1 / 2 ^ 53 \<and>
   \<bar>real (class_count ''nrtPS'') / 2 ^ 53 - 2 / 10\<bar> < 1 / 2 ^ 53 \<and>
   \<bar>real (class_count ''BE'') / 2 ^ 53 - 2 / 10\<bar> < 1 / 2 ^ 53"
proof -
  have run: "\<forall>g. unit_samples g \<longrightarrow>
      (\<exists>sched. schedule g = (Inr sched, \<lambda>k. g (20 + k)) \<and>
         length sched = 20 \<and>
         set sched \<subseteq> {''UGS'', ''rtPS'', ''nrtPS'', ''BE''} \<and>
         sched = map (\<lambda>k. if g k < 5404319552844595 / 2 ^ 54 then ''UGS''
                           else if g k < 5404319552844595 / 2 ^ 53 then ''rtPS''
                           else if g k < 7205759403792794 / 2 ^ 53 then ''nrtPS''
                           else ''BE'') [0..<20])"
  proof (intro allI impI)
    fix g assume g: "unit_samples g"
    let ?sched = "map (\<lambda>k. if g k < 5404319552844595 / 2 ^ 54 then ''UGS''
                           else if g k < 5404319552844595 / 2 ^ 53 then ''rtPS''
                           else if g k < 7205759403792794 / 2 ^ 53 then ''nrtPS''
                           else ''BE'') [0..<20]"
    have "schedule g = (Inr ?sched, \<lambda>k. g (20 + k))" by (rule schedule_classes [OF g])
    moreover have "length ?sched = 20" by simp
    moreover have "set ?sched \<subseteq> {''UGS'', ''rtPS'', ''nrtPS'', ''BE''}" by auto
    ultimately show "\<exists>sched. schedule g = (Inr sched, \<lambda>k. g (20 + k)) \<and>
         length sched = 20 \<and>
         set sched \<subseteq> {''UGS'', ''rtPS'', ''nrtPS'', ''BE''} \<and>
         sched = ?sched"
      by blast
  qed
  have joint: "\<forall>cs. length cs = 20 \<longrightarrow>
      card {us \<in> sample_lists 20. fst (schedule (rng_of us)) = Inr cs} =
        prod_list (map class_count cs)"
    using schedule_count by blast
  have total: "class_count ''UGS'' + class_count ''rtPS'' + class_count ''nrtPS'' +
      class_count ''BE'' = 2 ^ 53"
    by (simp add: class_counts)
  have p: "\<bar>real (class_count ''UGS'') / 2 ^ 53 - 3 / 10\<bar> < 1 / 2 ^ 53"
      "\<bar>real (class_count ''rtPS'') / 2 ^ 53 - 3 / 10\<bar> < 1 / 2 ^ 53"
      "\<bar>real (class_count ''nrtPS'') / 2 ^ 53 - 2 / 10\<bar> < 1 / 2 ^ 53"
      "\<bar>real (class_count ''BE'') / 2 ^ 53 - 2 / 10\<bar> < 1 / 2 ^ 53"
    by (simp_all add: class_counts)
  from run card_sample_lists [of 20] joint class_counts total p show ?thesis by blast
qed

theorem schedule_slots_witness:
  "unit_samples (const_rng (1 / 2)) \<and>
   fst (schedule (const_rng (1 / 2))) = Inr (replicate 20 ''rtPS'') \<and>
   unit_samples (const_rng (5404319552844595 / 2 ^ 53)) \<and>
   fst (schedule (const_rng (5404319552844595 / 2 ^ 53))) = Inr (replicate 20 ''nrtPS'') \<and>
   length (replicate 20 ''rtPS'') = 20 \<and>
   card {us \<in> sample_lists 20. fst (schedule (rng_of us)) = Inr (replicate 20 ''rtPS'')} =
     2702159776422297 ^ 20"
proof -
  have u: "unit_samples (const_rng (1 / 2))"
      "unit_samples (const_rng (5404319552844595 / 2 ^ 53))"
    by (simp_all add: unit_samples_const)
  have run: "\<And>g. unit_samples g \<Longrightarrow>
      fst (schedule g) = Inr (map (\<lambda>k. if g k < 5404319552844595 / 2 ^ 54 then ''UGS''
                           else if g k < 5404319552844595 / 2 ^ 53 then ''rtPS''
                           else if g k < 7205759403792794 / 2 ^ 53 then ''nrtPS''
                           else ''BE'') [0..<20])"
    using schedule_slots by fastforce
  have a: "fst (schedule (const_rng (1 / 2))) = Inr (replicate 20 ''rtPS'')"
    by (simp only: run [OF u(1)]) (simp add: const_rng_def map_replicate_const)
  have b: "fst (schedule (const_rng (5404319552844595 / 2 ^ 53))) = Inr (replicate 20 ''nrtPS'')"
    by (simp only: run [OF u(2)]) (simp add: const_rng_def map_replicate_const)
  have "\<forall>cs. length cs = 20 \<longrightarrow>
      card {us \<in> sample_lists 20. fst (schedule (rng_of us)) = Inr cs} =
        prod_list (map class_count cs)"
    using schedule_slots by blast
  then have "card {us \<in> sample_lists 20. fst (schedule (rng_of us)) = Inr (replicate 20 ''rtPS'')} =
      prod_list (map class_count (replicate 20 ''rtPS''))"
    by simp
  moreover have "class_count ''rtPS'' = 2702159776422297" using schedule_slots by blast
  ultimately have cnt: "card {us \<in> sample_lists 20.
      fst (schedule (rng_of us)) = Inr (replicate 20 ''rtPS'')} = 2702159776422297 ^ 20"
    by (simp add: prod_list_replicate)
  from u a b cnt show ?thesis by simp
qed

end
